theory Spec2Isabelle
  imports Main
begin

section \<open>gist2repo: naming of local clones\<close>

text \<open>
  Strings are Go strings read as byte lists. The two library functions that
  \<open>repoPathToName\<close> calls are the Go standard library's \<open>filepath.Base\<close> (Unix
  build: the separator is \<open>/\<close>, there is no volume name) and \<open>strings.TrimRight\<close>.
\<close>

definition isPathSeparator :: "char \<Rightarrow> bool" where
  "isPathSeparator c = (c = CHR ''/'')"

text \<open>
  \<open>filepath.Base\<close>: the empty path gives \<open>.\<close>; trailing separators are stripped;
  what follows the last separator is kept; a path of separators only gives \<open>/\<close>.
\<close>

definition Base :: "string \<Rightarrow> string" where
  "Base path =
     (if path = [] then ''.''
      else
        let stripped = rev (dropWhile isPathSeparator (rev path));
            elem = rev (takeWhile (\<lambda>c. \<not> isPathSeparator c) (rev stripped))
        in if elem = [] then ''/'' else elem)"

text \<open>
  \<open>strings.TrimRight s cutset\<close>: \<open>s\<close> without its trailing characters that occur
  in \<open>cutset\<close>. The cutset is a set of characters, not a suffix.
\<close>

definition TrimRight :: "string \<Rightarrow> string \<Rightarrow> string" where
  "TrimRight s cutset = rev (dropWhile (\<lambda>c. c \<in> set cutset) (rev s))"

text \<open>\<open>func repoPathToName(repo string) string\<close>\<close>

definition repoPathToName :: "string \<Rightarrow> string" where
  "repoPathToName repo = TrimRight (Base repo) ''.git''"

text \<open>
  \<open>filepath.Join\<close> (Unix): the elements from the first non-empty one on are joined
  with \<open>/\<close> and the result is cleaned by \<open>filepath.Clean\<close>; with no non-empty
  element the result is the empty string. \<open>Clean\<close> drops empty and \<open>.\<close> elements,
  cancels an inner \<open>..\<close> against the element before it, drops a \<open>..\<close> that would
  climb above the root, and returns \<open>.\<close> for an empty result.
\<close>

fun splitPath :: "string \<Rightarrow> string \<Rightarrow> string list" where
  "splitPath cur [] = [rev cur]"
| "splitPath cur (c # cs) =
     (if isPathSeparator c then rev cur # splitPath [] cs else splitPath (c # cur) cs)"

fun cleanElems :: "bool \<Rightarrow> string list \<Rightarrow> string list \<Rightarrow> string list" where
  "cleanElems rooted out [] = rev out"
| "cleanElems rooted out (e # es) =
     (if e = [] \<or> e = ''.'' then cleanElems rooted out es
      else if e = ''..'' then
        (case out of
           [] \<Rightarrow> if rooted then cleanElems rooted [] es else cleanElems rooted [''..''] es
         | lastElem # below \<Rightarrow>
             if lastElem = ''..'' then cleanElems rooted (''..'' # out) es
             else cleanElems rooted below es)
      else cleanElems rooted (e # out) es)"

fun joinWith :: "string \<Rightarrow> string list \<Rightarrow> string" where
  "joinWith sep [] = []"
| "joinWith sep [e] = e"
| "joinWith sep (e # es) = e @ sep @ joinWith sep es"

definition Clean :: "string \<Rightarrow> string" where
  "Clean path =
     (if path = [] then ''.''
      else
        let rooted = isPathSeparator (hd path);
            out = (if rooted then ''/'' else []) @
                  joinWith ''/'' (cleanElems rooted [] (splitPath [] path))
        in if out = [] then ''.'' else out)"

fun Join :: "string list \<Rightarrow> string" where
  "Join [] = []"
| "Join (e # es) = (if e \<noteq> [] then Clean (joinWith ''/'' (e # es)) else Join es)"

section \<open>Configuration: environment and flags\<close>

text \<open>
  The package-level variables \<open>token\<close>, \<open>repoPath\<close>, \<open>userName\<close>; each starts as the
  empty string.
\<close>

record globals =
  token :: string
  repoPath :: string
  userName :: string

definition initGlobals :: globals where
  "initGlobals = \<lparr>token = [], repoPath = [], userName = []\<rparr>"

definition SYNC2REPO_TOKEN_NAME :: string where
  "SYNC2REPO_TOKEN_NAME = ''SYNC2REPO_TOKEN''"

text \<open>\<open>os.Getenv\<close>: the value of the variable, empty when it is not set.\<close>

definition Getenv :: "(string \<rightharpoonup> string) \<Rightarrow> string \<Rightarrow> string" where
  "Getenv env key = (case env key of None \<Rightarrow> [] | Some v \<Rightarrow> v)"

definition parseEnvs :: "(string \<rightharpoonup> string) \<Rightarrow> globals \<Rightarrow> globals" where
  "parseEnvs env g =
     (let t = Getenv env SYNC2REPO_TOKEN_NAME
      in if t \<noteq> [] then g\<lparr>token := t\<rparr> else g)"

text \<open>
  The Go standard library's \<open>flag\<close> package. \<open>flag.StringVar(p, name, value, usage)\<close>
  stores the default \<open>value\<close> in \<open>*p\<close> when the flag is defined
  (\<open>newStringValue\<close> assigns \<open>*p = val\<close>), and \<open>flag.Parse\<close> then assigns the
  variables of the flags present on the command line (\<open>stringValue.Set\<close> assigns
  \<open>*p = val\<close> as well, so one function models both). The three calls of
  \<open>parseFlags\<close> all pass the empty default.
\<close>

definition StringVar :: "string \<Rightarrow> string \<Rightarrow> globals \<Rightarrow> globals" where
  "StringVar name val g =
     (if name = ''token'' then g\<lparr>token := val\<rparr>
      else if name = ''repo'' then g\<lparr>repoPath := val\<rparr>
      else if name = ''user'' then g\<lparr>userName := val\<rparr>
      else g)"

definition formal :: "string list" where
  "formal = [''token'', ''repo'', ''user'']"

datatype flagError = BadFlagSyntax | NotDefined | HelpRequested | NeedsArgument

text \<open>
  \<open>FlagSet.parseOne\<close> looks for \<open>=\<close> in the flag's name from its second character
  on: what precedes it is the name, what follows is the value.
\<close>

definition splitName :: "string \<Rightarrow> string \<times> string option" where
  "splitName name =
     (case name of
        [] \<Rightarrow> ([], None)
      | c # cs \<Rightarrow>
          if CHR ''='' \<in> set cs
          then (c # takeWhile (\<lambda>x. x \<noteq> CHR ''='') cs,
                Some (tl (dropWhile (\<lambda>x. x \<noteq> CHR ''='') cs)))
          else (name, None))"

text \<open>
  \<open>FlagSet.Parse\<close>: the loop over \<open>parseOne\<close>. It stops at the first argument that
  is not a flag and at \<open>--\<close>. The second component lists the flags that were set
  (\<open>FlagSet.actual\<close>). The command line's flag set exits the process on an error.
\<close>

fun Parse :: "globals \<times> string list \<Rightarrow> string list \<Rightarrow> flagError + globals \<times> string list" where
  "Parse ga [] = Inr ga"
| "Parse (g, actual) (s # rest) =
     (if length s < 2 \<or> hd s \<noteq> CHR ''-'' then Inr (g, actual)
      else if s = ''--'' then Inr (g, actual)
      else
        let name = drop (if s ! 1 = CHR ''-'' then 2 else 1) s
        in if name = [] \<or> hd name = CHR ''-'' \<or> hd name = CHR ''='' then Inl BadFlagSyntax
           else
             (case splitName name of
                (n, hasValue) \<Rightarrow>
                  if n \<notin> set formal
                  then (if n = ''help'' \<or> n = ''h'' then Inl HelpRequested else Inl NotDefined)
                  else
                    (case hasValue of
                       Some v \<Rightarrow> Parse (StringVar n v g, actual @ [n]) rest
                     | None \<Rightarrow>
                         (case rest of
                            [] \<Rightarrow> Inl NeedsArgument
                          | v # rest' \<Rightarrow> Parse (StringVar n v g, actual @ [n]) rest'))))"

definition parseFlags :: "string list \<Rightarrow> globals \<Rightarrow> flagError + globals \<times> string list" where
  "parseFlags args g =
     Parse (StringVar ''user'' [] (StringVar ''repo'' [] (StringVar ''token'' [] g)), []) args"

text \<open>
  The start of \<open>main\<close>: \<open>parseEnvs()\<close>, then \<open>parseFlags()\<close>, then the check that
  none of the three values is empty (\<open>log.Fatal\<close> otherwise).
\<close>

datatype exit = FlagFailure flagError | MissingArguments

definition startup :: "(string \<rightharpoonup> string) \<Rightarrow> string list \<Rightarrow> exit + globals" where
  "startup env args =
     (case parseFlags args (parseEnvs env initGlobals) of
        Inl e \<Rightarrow> Inl (FlagFailure e)
      | Inr (g, actual) \<Rightarrow>
          if userName g = [] \<or> token g = [] \<or> repoPath g = [] then Inl MissingArguments
          else Inr g)"

section \<open>The Lister\<close>

text \<open>
  \<open>client.Gists.List\<close> is the remote API: asked for a page it returns an error, or
  the page's gists with the response's \<open>NextPage\<close> and \<open>LastPage\<close>. Page numbers
  are Go \<open>int\<close>s.
\<close>

record 'g response =
  gists :: "'g list"
  NextPage :: int
  LastPage :: int

text \<open>
  What the goroutine of \<open>listGists\<close> has done: the pages it asked for, the gists it
  sent on \<open>gistsCh\<close>, the errors it sent on \<open>errCh\<close>, and which channels it closed.
  \<open>gistsCh\<close> is unbuffered and its reader (\<open>reposUrl\<close>) receives until the channel is
  closed, so a send returns; \<open>errCh\<close> has room for the one error the loop can send.
\<close>

record ('g, 'e) lister =
  requested :: "int list"
  gistsCh :: "'g list"
  errCh :: "'e list"
  gistsClosed :: bool
  errClosed :: bool

definition listerStart :: "('g, 'e) lister" where
  "listerStart =
     \<lparr>requested = [], gistsCh = [], errCh = [], gistsClosed = False, errClosed = False\<rparr>"

text \<open>
  The loop \<open>for lastPage != 0 && nextPage <= lastPage\<close>. The remote decides how long
  it runs, so the result is an option: \<open>None\<close> when the loop never ends.
\<close>

partial_function (option) listLoop ::
  "(int \<Rightarrow> 'e + 'g response) \<Rightarrow> int \<Rightarrow> int \<Rightarrow> ('g, 'e) lister \<Rightarrow> ('g, 'e) lister option"
where
  "listLoop List nextPage lastPage st =
     (if lastPage \<noteq> 0 \<and> nextPage \<le> lastPage then
        (case List nextPage of
           Inl err \<Rightarrow>
             Some (st\<lparr>requested := requested st @ [nextPage], errCh := errCh st @ [err]\<rparr>)
         | Inr resp \<Rightarrow>
             listLoop List (NextPage resp) (LastPage resp)
               (st\<lparr>requested := requested st @ [nextPage],
                   gistsCh := gistsCh st @ gists resp\<rparr>))
      else Some st)"

declare listLoop.simps [code]

definition listGists :: "(int \<Rightarrow> 'e + 'g response) \<Rightarrow> ('g, 'e) lister option" where
  "listGists List =
     map_option (\<lambda>st. st\<lparr>errClosed := True, gistsClosed := True\<rparr>)
       (listLoop List 0 1 listerStart)"

text \<open>
  A remote that holds its gists in the pages \<open>pages\<close> and answers as the GitHub API
  does through go-github: page 0 is page 1; a response names the next and the last
  page while there is a next page, and leaves both at zero on the last page.
\<close>

definition pageNumber :: "int \<Rightarrow> nat" where
  "pageNumber page = (if page \<le> 0 then 1 else nat page)"

definition pagedList :: "'g list list \<Rightarrow> int \<Rightarrow> 'e + 'g response" where
  "pagedList pages page =
     (let k = pageNumber page
      in if k < length pages
         then Inr \<lparr>gists = pages ! (k - 1), NextPage = int k + 1, LastPage = int (length pages)\<rparr>
         else if k = length pages
         then Inr \<lparr>gists = pages ! (k - 1), NextPage = 0, LastPage = 0\<rparr>
         else Inr \<lparr>gists = [], NextPage = 0, LastPage = 0\<rparr>)"

text \<open>The same remote, with the fetch of page \<open>k\<close> failing with \<open>err\<close>.\<close>

definition failingList :: "'g list list \<Rightarrow> nat \<Rightarrow> 'e \<Rightarrow> int \<Rightarrow> 'e + 'g response" where
  "failingList pages k err page =
     (if pageNumber page = k then Inl err else pagedList pages page)"

section \<open>Running git\<close>

text \<open>
  The operating system, as the program uses it: \<open>exec.Command(name, args...)\<close>
  followed by \<open>CombinedOutput()\<close> (the output and, when the command failed, the
  error's text), \<open>filepath.Abs\<close> (the path and, when it failed, the error's text) and
  \<open>os.Chdir\<close>. An error is the text of its \<open>Error()\<close>.
\<close>

record 'w os =
  CombinedOutput :: "string list \<Rightarrow> 'w \<Rightarrow> (string \<times> string option) \<times> 'w"
  Abs :: "string \<Rightarrow> 'w \<Rightarrow> string \<times> string option"
  Chdir :: "string \<Rightarrow> 'w \<Rightarrow> string option \<times> 'w"

text \<open>
  A stage's view of the system: the outside world and, as instrumentation, the calls
  of \<open>execGit\<close> made so far, each with its arguments and its result.
\<close>

record 'w sys =
  world :: 'w
  calls :: "(string list \<times> string option) list"

text \<open>\<open>func execGit(args ...string) error\<close>; the error is \<open>fmt.Errorf("%s: %v", output, err)\<close>.\<close>

definition execGit ::
  "'w os \<Rightarrow> string list \<Rightarrow> ('w, 'z) sys_scheme \<Rightarrow> string option \<times> ('w, 'z) sys_scheme"
where
  "execGit os args s =
     (case CombinedOutput os (''git'' # args) (world s) of
        ((output, err), w') \<Rightarrow>
          let result = (case err of Some e \<Rightarrow> Some (output @ '': '' @ e) | None \<Rightarrow> None)
          in (result, s\<lparr>world := w', calls := calls s @ [(args, result)]\<rparr>))"

section \<open>The Cloner\<close>

subsection \<open>One clone task\<close>

text \<open>
  What the clone tasks have sent: paths on \<open>pathCh\<close>, errors on the Cloner's
  \<open>errCh\<close> (\<open>reposErrCh\<close> in \<open>main\<close>).
\<close>

record 'w cloner = "'w sys" +
  pathCh :: "string list"
  reposErrCh :: "string list"

text \<open>
  The body of the task \<open>go func(r string)\<close> between acquiring and releasing its slot
  of \<open>limit\<close>: the clone, the error sent if it failed, the path sent.
\<close>

definition cloneTask :: "'w os \<Rightarrow> string \<Rightarrow> string \<Rightarrow> 'w cloner \<Rightarrow> 'w cloner" where
  "cloneTask os baseDir r st =
     (let path = Join [baseDir, repoPathToName r]
      in case execGit os [''clone'', r, path] st of
           (err, st1) \<Rightarrow>
             let st2 = (case err of
                          Some e \<Rightarrow> st1\<lparr>reposErrCh := reposErrCh st1 @ [e]\<rparr>
                        | None \<Rightarrow> st1)
             in st2\<lparr>pathCh := pathCh st2 @ [path]\<rparr>)"

text \<open>
  The tasks run concurrently. \<open>cloneRepos\<close> is the run in which they take their turns
  in the order the URLs arrived.
\<close>

definition cloneRepos :: "'w os \<Rightarrow> string \<Rightarrow> string list \<Rightarrow> 'w \<Rightarrow> 'w cloner" where
  "cloneRepos os baseDir repos w =
     foldl (\<lambda>st r. cloneTask os baseDir r st)
       \<lparr>world = w, calls = [], pathCh = [], reposErrCh = []\<rparr> repos"

subsection \<open>The admission gate\<close>

text \<open>
  The control points of one clone task: spawned and waiting at \<open>limit <- struct{}{}\<close>;
  inside \<open>execGit("clone", ...)\<close>; at \<open>errCh <- err\<close> after a failed clone; at
  \<open>pathCh <- path\<close>; at \<open><-limit\<close>; at \<open>wg.Done()\<close>; finished.
\<close>

datatype pc = Spawned | Cloning | Reporting | Sending | Releasing | Finishing | Finished

text \<open>
  The tasks spawned so far and the number of tokens in the channel \<open>limit\<close>, which
  is made with room for 30.
\<close>

record gate =
  tasks :: "pc list"
  limit :: nat

definition limitCap :: nat where
  "limitCap = 30"

definition gateStart :: gate where
  "gateStart = \<lparr>tasks = [], limit = 0\<rparr>"

text \<open>
  What a schedule can pick next: the loop \<open>for repo := range repos\<close> spawning a
  task, or task \<open>i\<close> taking its next step (the clone command returning without or
  with an error are two events).
\<close>

datatype event =
  Spawn | Acquire nat | CloneOk nat | CloneFail nat | Report nat | SendPath nat
  | Release nat | Finish nat

text \<open>Task \<open>i\<close> moves from one control point to the next, if it is at the first.\<close>

definition move :: "nat \<Rightarrow> pc \<Rightarrow> pc \<Rightarrow> gate \<Rightarrow> gate option" where
  "move i a b s =
     (if i < length (tasks s) \<and> tasks s ! i = a
      then Some (s\<lparr>tasks := (tasks s)[i := b]\<rparr>) else None)"

text \<open>
  One step, \<open>None\<close> when the event cannot happen in the state. A send on \<open>limit\<close>
  needs room in the channel, a receive needs a token in it; until then the task
  blocks.
\<close>

fun step :: "event \<Rightarrow> gate \<Rightarrow> gate option" where
  "step Spawn s = Some (s\<lparr>tasks := tasks s @ [Spawned]\<rparr>)"
| "step (Acquire i) s =
     (if limit s < limitCap
      then map_option (\<lambda>s'. s'\<lparr>limit := limit s + 1\<rparr>) (move i Spawned Cloning s)
      else None)"
| "step (CloneOk i) s = move i Cloning Sending s"
| "step (CloneFail i) s = move i Cloning Reporting s"
| "step (Report i) s = move i Reporting Sending s"
| "step (SendPath i) s = move i Sending Releasing s"
| "step (Release i) s =
     (if 0 < limit s
      then map_option (\<lambda>s'. s'\<lparr>limit := limit s - 1\<rparr>) (move i Releasing Finishing s)
      else None)"
| "step (Finish i) s = move i Finishing Finished s"

text \<open>A schedule is a list of events; every interleaving of the tasks is one.\<close>

fun run :: "event list \<Rightarrow> gate \<Rightarrow> gate option" where
  "run [] s = Some s"
| "run (e # es) s = (case step e s of None \<Rightarrow> None | Some s' \<Rightarrow> run es s')"

text \<open>A task holds a slot from its send on \<open>limit\<close> to its receive from it.\<close>

fun holdsSlot :: "pc \<Rightarrow> bool" where
  "holdsSlot Cloning = True"
| "holdsSlot Reporting = True"
| "holdsSlot Sending = True"
| "holdsSlot Releasing = True"
| "holdsSlot _ = False"

definition cloning :: "gate \<Rightarrow> nat" where
  "cloning s = length (filter (\<lambda>p. p = Cloning) (tasks s))"

definition holders :: "gate \<Rightarrow> nat" where
  "holders s = length (filter holdsSlot (tasks s))"

section \<open>The Merger\<close>

datatype panic = SendOnClosedChannel | CloseOfClosedChannel

text \<open>
  The Merger's state: the system, the errors sent on its \<open>errCh\<close> (\<open>mergeErrCh\<close> in
  \<open>main\<close>), whether that channel is closed, and whether the worker goroutine was
  launched. The channel's reader (\<open>mergeErrorChs\<close>) receives until the channel is
  closed, so a send on the open channel returns.
\<close>

record 'w merger = "'w sys" +
  mergeErrCh :: "string list"
  mergeErrClosed :: bool
  launched :: bool

definition mergerStart :: "'w \<Rightarrow> 'w merger" where
  "mergerStart w =
     \<lparr>world = w, calls = [], mergeErrCh = [], mergeErrClosed = False, launched = False\<rparr>"

text \<open>Go panics on a send on a closed channel and on closing a closed channel.\<close>

definition send :: "string \<Rightarrow> 'w merger \<Rightarrow> panic \<times> 'w merger + 'w merger" where
  "send e st =
     (if mergeErrClosed st then Inl (SendOnClosedChannel, st)
      else Inr (st\<lparr>mergeErrCh := mergeErrCh st @ [e]\<rparr>))"

definition closeCh :: "'w merger \<Rightarrow> panic \<times> 'w merger + 'w merger" where
  "closeCh st =
     (if mergeErrClosed st then Inl (CloseOfClosedChannel, st)
      else Inr (st\<lparr>mergeErrClosed := True\<rparr>))"

text \<open>Sequencing: a panic ends the run.\<close>

definition andThen :: "'p + 's \<Rightarrow> ('s \<Rightarrow> 'p + 's) \<Rightarrow> 'p + 's" where
  "andThen r f = (case r of Inl p \<Rightarrow> Inl p | Inr st \<Rightarrow> f st)"

definition stages :: "string \<Rightarrow> string list list" where
  "stages repo =
     (let remoteName = repoPathToName repo
      in [[''remote'', ''add'', remoteName, repo],
          [''fetch'', remoteName],
          [''merge'', ''--allow-unrelated-histories'', ''-m'', ''move gists to repo'',
           remoteName @ ''/master''],
          [''remote'', ''rm'', remoteName]])"

text \<open>
  The inner loop \<open>for _, args := range stages\<close>: on an error the stage sends
  \<open>fmt.Errorf("%s: %v", repo, err)\<close> and continues with the next stage.
\<close>

fun runStages ::
  "'w os \<Rightarrow> string \<Rightarrow> string list list \<Rightarrow> 'w merger \<Rightarrow> panic \<times> 'w merger + 'w merger"
where
  "runStages os repo [] st = Inr st"
| "runStages os repo (args # rest) st =
     (case execGit os args st of
        (Some e, st') \<Rightarrow> andThen (send (repo @ '': '' @ e) st') (runStages os repo rest)
      | (None, st') \<Rightarrow> runStages os repo rest st')"

text \<open>The outer loop \<open>for repo := range repos\<close>.\<close>

fun mergeLoop ::
  "'w os \<Rightarrow> string list \<Rightarrow> 'w merger \<Rightarrow> panic \<times> 'w merger + 'w merger"
where
  "mergeLoop os [] st = Inr st"
| "mergeLoop os (repo # repos) st =
     andThen (runStages os repo (stages repo) st) (mergeLoop os repos)"

text \<open>
  The worker goroutine: the loop, then \<open>os.Chdir(currDir)\<close> with its error sent, then
  \<open>close(errCh)\<close>.
\<close>

definition worker ::
  "'w os \<Rightarrow> string \<Rightarrow> string list \<Rightarrow> 'w merger \<Rightarrow> panic \<times> 'w merger + 'w merger"
where
  "worker os currDir repos st =
     andThen (mergeLoop os repos st)
       (\<lambda>st1. case Chdir os currDir (world st1) of
                 (err, w') \<Rightarrow>
                   andThen
                     (case err of
                        Some e \<Rightarrow> send e (st1\<lparr>world := w'\<rparr>)
                      | None \<Rightarrow> Inr (st1\<lparr>world := w'\<rparr>))
                     closeCh)"

text \<open>
  \<open>func mergeRepos(dstRepoPath string, repos <-chan string) <-chan error\<close>, with the
  paths that arrive on \<open>repos\<close> before it is closed as a list. The result is the
  Merger taken to the end of its worker goroutine. \<open>main\<close> waits for the worker
  through the error channel; once that channel is closed the process can end before
  the worker does, which is not part of this model.
\<close>

definition mergeRepos ::
  "'w os \<Rightarrow> string \<Rightarrow> string list \<Rightarrow> 'w \<Rightarrow> panic \<times> 'w merger + 'w merger"
where
  "mergeRepos os dstRepoPath repos w =
     (let st0 = mergerStart w
      in case Abs os ''.'' w of
           (currDir, err) \<Rightarrow>
             andThen
               (case err of
                  Some e \<Rightarrow> andThen (send e st0) closeCh
                | None \<Rightarrow> Inr st0)
               (\<lambda>st1. case Chdir os dstRepoPath (world st1) of
                         (err2, w') \<Rightarrow>
                           andThen
                             (case err2 of
                                Some e \<Rightarrow> andThen (send e (st1\<lparr>world := w'\<rparr>)) closeCh
                              | None \<Rightarrow> Inr (st1\<lparr>world := w'\<rparr>))
                             (\<lambda>st2. worker os currDir repos (st2\<lparr>launched := True\<rparr>))))"

text \<open>The errors among the results of a run of calls.\<close>

definition failures :: "(string list \<times> string option) list \<Rightarrow> string list" where
  "failures cs = List.map_filter snd cs"

text \<open>The paths the Merger has started on: each begins with its \<open>remote add\<close>.\<close>

definition attempted :: "'w merger \<Rightarrow> string list" where
  "attempted st =
     map (\<lambda>(args, r). last args)
       (filter (\<lambda>(args, r). take 2 args = [''remote'', ''add'']) (calls st))"

text \<open>
  For comparison with the worker's loops: the commands of a list run in order, each in
  the world the one before left, up to and including the first that fails. The
  result is the calls made with their results, the world they leave, and whether one
  failed.
\<close>

fun gitUntilFailure ::
  "'w os \<Rightarrow> string list list \<Rightarrow> 'w \<Rightarrow> (string list \<times> string option) list \<times> 'w \<times> bool"
where
  "gitUntilFailure os [] w = ([], w, False)"
| "gitUntilFailure os (args # rest) w =
     (case CombinedOutput os (''git'' # args) w of
        ((output, Some e), w') \<Rightarrow> ([(args, Some (output @ '': '' @ e))], w', True)
      | ((output, None), w') \<Rightarrow>
          (case gitUntilFailure os rest w' of
             (log, w'', failed) \<Rightarrow> ((args, None) # log, w'', failed)))"

section \<open>Concrete runs\<close>

text \<open>
  The inputs at which the properties below are evaluated: two gists and their local
  clones, and systems whose outside world has no state of its own. In \<open>quietOs\<close>
  every git command succeeds, the working directory resolves to \<open>/home/u\<close>, and
  \<open>os.Chdir\<close> fails on the empty path only, as it does on a real system. The other
  systems differ from it in what their names say.
\<close>

definition gistA :: string where
  "gistA = ''https://gist.github.com/1a2b3c.git''"

definition gistB :: string where
  "gistB = ''https://gist.github.com/4d5e6f.git''"

definition cloneA :: string where
  "cloneA = ''/tmp/012/1a2b3c''"

definition cloneB :: string where
  "cloneB = ''/tmp/012/4d5e6f''"

definition quietOs :: "unit os" where
  "quietOs =
     \<lparr>CombinedOutput = (\<lambda>args w. (([], None), w)),
      Abs = (\<lambda>path w. (''/home/u'', None)),
      Chdir = (\<lambda>path w. if path = [] then (Some ''chdir : no such file or directory'', w)
                          else (None, w))\<rparr>"

definition cloneOfBFails :: "unit os" where
  "cloneOfBFails =
     quietOs\<lparr>CombinedOutput :=
       (\<lambda>args w. if take 3 args = [''git'', ''clone'', gistB]
                  then ((''fatal: repository not found'', Some ''exit status 128''), w)
                  else (([], None), w))\<rparr>"

definition fetchFails :: "unit os" where
  "fetchFails =
     quietOs\<lparr>CombinedOutput :=
       (\<lambda>args w. if take 2 args = [''git'', ''fetch'']
                  then ((''fatal: no such remote'', Some ''exit status 128''), w)
                  else (([], None), w))\<rparr>"

definition mergeFails :: "unit os" where
  "mergeFails =
     quietOs\<lparr>CombinedOutput :=
       (\<lambda>args w. if take 2 args = [''git'', ''merge'']
                  then ((''CONFLICT (add/add)'', Some ''exit status 1''), w)
                  else (([], None), w))\<rparr>"

text \<open>The destination \<open>/dst\<close> does not exist: \<open>os.Chdir\<close> fails on it.\<close>

definition dstMissing :: "unit os \<Rightarrow> unit os" where
  "dstMissing os =
     os\<lparr>Chdir := (\<lambda>path w. if path = ''/dst'' \<or> path = []
                            then (Some (''chdir '' @ path @ '': no such file or directory''), w)
                            else (None, w))\<rparr>"

text \<open>
  The working directory was removed: \<open>filepath.Abs(".")\<close> fails and returns the empty
  path.
\<close>

definition cwdGone :: "unit os \<Rightarrow> unit os" where
  "cwdGone os = os\<lparr>Abs := (\<lambda>path w. ([], Some ''getwd: no such file or directory''))\<rparr>"

section \<open>Properties of the naming\<close>

lemma TrimRight_append_cutset:
  "set t \<subseteq> set cutset \<Longrightarrow> TrimRight (s @ t) cutset = TrimRight s cutset"
proof -
  assume sub: "set t \<subseteq> set cutset"
  have "dropWhile (\<lambda>c. c \<in> set cutset) (rev t @ rev s) = dropWhile (\<lambda>c. c \<in> set cutset) (rev s)"
    by (rule dropWhile_append2) (use sub in auto)
  then show ?thesis by (simp add: TrimRight_def)
qed

lemma TrimRight_unchanged:
  "s = [] \<or> last s \<notin> set cutset \<Longrightarrow> TrimRight s cutset = s"
  by (cases s rule: rev_cases) (auto simp: TrimRight_def)

lemma TrimRight_result:
  "TrimRight s cutset = [] \<or> last (TrimRight s cutset) \<notin> set cutset"
proof (induction s rule: rev_induct)
  case Nil
  then show ?case by (simp add: TrimRight_def)
next
  case (snoc x xs)
  then show ?case by (auto simp: TrimRight_def)
qed

lemma TrimRight_idem: "TrimRight (TrimRight s cutset) cutset = TrimRight s cutset"
  using TrimRight_result [of s cutset] by (rule TrimRight_unchanged)

lemma set_TrimRight: "set (TrimRight s cutset) \<subseteq> set s"
  by (auto simp: TrimRight_def dest: set_dropWhileD)

lemma Base_segment:
  assumes "seg \<noteq> []" "CHR ''/'' \<notin> set seg"
  shows "Base (dir @ ''/'' @ seg) = seg"
proof -
  have nsep: "\<forall>c\<in>set (rev seg). \<not> isPathSeparator c"
    using assms(2) by (auto simp: isPathSeparator_def)
  obtain c cs where seg: "rev seg = c # cs" using assms(1) by (cases "rev seg") auto
  have c: "\<not> isPathSeparator c" using nsep seg by simp
  have "dropWhile isPathSeparator (rev (dir @ ''/'' @ seg)) = rev (dir @ ''/'' @ seg)"
    using seg c by simp
  moreover have "takeWhile (\<lambda>c. \<not> isPathSeparator c) (rev seg @ CHR ''/'' # rev dir) = rev seg"
    using nsep by (simp add: takeWhile_append isPathSeparator_def)
  ultimately show ?thesis
    using assms(1) by (simp add: Base_def Let_def)
qed

lemma Base_no_separator:
  assumes "seg \<noteq> []" "CHR ''/'' \<notin> set seg"
  shows "Base seg = seg"
proof -
  have nsep: "\<forall>c\<in>set (rev seg). \<not> isPathSeparator c"
    using assms(2) by (auto simp: isPathSeparator_def)
  obtain c cs where seg: "rev seg = c # cs" using assms(1) by (cases "rev seg") auto
  have c: "\<not> isPathSeparator c" using nsep seg by simp
  have dw: "dropWhile isPathSeparator (rev seg) = rev seg"
    using seg c by simp
  have tw: "takeWhile (\<lambda>c. \<not> isPathSeparator c) (rev seg) = rev seg"
    using nsep by simp
  show ?thesis
    using assms(1) by (simp add: Base_def Let_def dw tw)
qed

lemma Base_cases:
  "Base p = ''.'' \<or> Base p = ''/'' \<or> (Base p \<noteq> [] \<and> CHR ''/'' \<notin> set (Base p))"
proof -
  have "CHR ''/'' \<notin> set (takeWhile (\<lambda>c. \<not> isPathSeparator c) xs)" for xs
    by (induction xs) (auto simp: isPathSeparator_def)
  then show ?thesis by (auto simp: Base_def Let_def)
qed

text \<open>
  The derivation is idempotent on every string: its result has no separator and ends
  in none of the characters of the cutset.
\<close>

lemma repoPathToName_idempotent: "repoPathToName (repoPathToName x) = repoPathToName x"
proof -
  let ?y = "repoPathToName x"
  consider "Base x = ''.''" | "Base x = ''/''" | "Base x \<noteq> [] \<and> CHR ''/'' \<notin> set (Base x)"
    using Base_cases by blast
  then show ?thesis
  proof cases
    case 1
    then show ?thesis by (simp add: repoPathToName_def TrimRight_def Base_def)
  next
    case 2
    then show ?thesis by (simp add: repoPathToName_def TrimRight_def Base_def isPathSeparator_def)
  next
    case 3
    show ?thesis
    proof (cases "?y = []")
      case True
      then show ?thesis by (simp add: repoPathToName_def TrimRight_def Base_def)
    next
      case False
      have "CHR ''/'' \<notin> set ?y" using 3 set_TrimRight [of "Base x" "''.git''"]
        by (auto simp: repoPathToName_def)
      then have "Base ?y = ?y" using False by (simp add: Base_no_separator)
      then show ?thesis by (simp add: repoPathToName_def TrimRight_idem)
    qed
  qed
qed

text \<open>
  Where the final segment is \<open>stem.git\<close> and the stem ends in none of the characters
  \<open>.\<close>, \<open>g\<close>, \<open>i\<close>, \<open>t\<close> (a hexadecimal gist id never does), the derived name is the
  stem.
\<close>

lemma repoPathToName_stem:
  assumes "CHR ''/'' \<notin> set stem" "stem = [] \<or> last stem \<notin> set ''.git''"
  shows "repoPathToName (dir @ ''/'' @ stem @ ''.git'') = stem"
proof -
  have "Base (dir @ ''/'' @ (stem @ ''.git'')) = stem @ ''.git''"
    using assms(1) by (intro Base_segment) auto
  then have "repoPathToName (dir @ ''/'' @ stem @ ''.git'') = TrimRight (stem @ ''.git'') ''.git''"
    by (simp add: repoPathToName_def)
  also have "\<dots> = TrimRight stem ''.git''" by (rule TrimRight_append_cutset) simp
  also have "\<dots> = stem" using assms(2) by (rule TrimRight_unchanged)
  finally show ?thesis .
qed

section \<open>Properties of the flags\<close>

lemma StringVar_token: "n \<noteq> ''token'' \<Longrightarrow> token (StringVar n v g) = token g"
  by (simp add: StringVar_def)

lemma Parse_keeps_token:
  "Parse ga args = Inr ga' \<Longrightarrow> 
   set (snd ga) \<subseteq> set (snd ga') \<and> (''token'' \<notin> set (snd ga') \<longrightarrow> token (fst ga') = token (fst ga))"
proof (induction ga args rule: Parse.induct)
  case (1 ga)
  then show ?case by simp
next
  case (2 g actual s rest)
  let ?name = "drop (if s ! 1 = CHR ''-'' then 2 else 1) s"
  show ?case
  proof (cases "length s < 2 \<or> hd s \<noteq> CHR ''-'' \<or> s = ''--''")
    case True
    then show ?thesis using "2.prems" by (auto split: if_splits)
  next
    case False
    note nf = False
    then have ok: "\<not> (?name = [] \<or> hd ?name = CHR ''-'' \<or> hd ?name = CHR ''='')"
      using "2.prems" by (auto simp: Let_def split: if_splits)
    obtain n hasValue where sp: "splitName ?name = (n, hasValue)" by (cases "splitName ?name") auto
    have formal: "n \<in> set formal"
      using "2.prems" nf ok sp by (auto simp: Let_def split: if_splits)
    show ?thesis
    proof (cases hasValue)
      case (Some v)
      then have p: "Parse (StringVar n v g, actual @ [n]) rest = Inr ga'"
        using "2.prems" nf ok sp formal by (simp add: Let_def)
      have "set (actual @ [n]) \<subseteq> set (snd ga') \<and>
        (''token'' \<notin> set (snd ga') \<longrightarrow> token (fst ga') = token (StringVar n v g))"
        using "2.IH"(2) [OF _ _ refl _ sp [symmetric] _ Some p] nf ok formal by auto
      then show ?thesis using StringVar_token [of n v g] by auto
    next
      case None
      then obtain v rest' where r: "rest = v # rest'"
        and p: "Parse (StringVar n v g, actual @ [n]) rest' = Inr ga'"
        using "2.prems" nf ok sp formal by (auto simp: Let_def split: list.splits)
      have "set (actual @ [n]) \<subseteq> set (snd ga') \<and>
        (''token'' \<notin> set (snd ga') \<longrightarrow> token (fst ga') = token (StringVar n v g))"
        using "2.IH"(1) [OF _ _ refl _ sp [symmetric] _ None r p] nf ok formal by auto
      then show ?thesis using StringVar_token [of n v g] by auto
    qed
  qed
qed

text \<open>
  Whatever the environment holds: when the command line names no \<open>token\<close> flag,
  \<open>token\<close> is empty after \<open>parseFlags\<close>.
\<close>

theorem token_empty_without_flag:
  assumes "parseFlags args (parseEnvs env initGlobals) = Inr (g, actual)"
    and "''token'' \<notin> set actual"
  shows "token g = []"
  using Parse_keeps_token [OF assms(1) [unfolded parseFlags_def]] assms(2)
  by (simp add: StringVar_def)

theorem token_empty_without_flag_witness:
  "parseFlags [''--user=u'', ''--repo=/r'']
     (parseEnvs [SYNC2REPO_TOKEN_NAME \<mapsto> ''secret''] initGlobals) =
     Inr (\<lparr>token = [], repoPath = ''/r'', userName = ''u''\<rparr>, [''user'', ''repo'']) \<and>
   ''token'' \<notin> set [''user'', ''repo''] \<and>
   token \<lparr>token = [], repoPath = ''/r'', userName = ''u''\<rparr> = []"
proof -
  have p: "parseFlags [''--user=u'', ''--repo=/r'']
     (parseEnvs [SYNC2REPO_TOKEN_NAME \<mapsto> ''secret''] initGlobals) =
     Inr (\<lparr>token = [], repoPath = ''/r'', userName = ''u''\<rparr>, [''user'', ''repo''])"
    by (simp add: parseFlags_def parseEnvs_def Getenv_def initGlobals_def
        StringVar_def splitName_def formal_def SYNC2REPO_TOKEN_NAME_def Let_def)
  have n: "''token'' \<notin> set [''user'', ''repo'']" by simp
  show ?thesis
    using p n token_empty_without_flag [OF p n] by blast
qed

section \<open>Properties of the Lister\<close>

lemma pageNumber_int: "0 < k \<Longrightarrow> pageNumber (int k) = k"
  by (simp add: pageNumber_def)

lemma listLoop_done: "listLoop List n 0 st = Some st"
  by (subst listLoop.simps) simp

lemma drop_pred:
  "0 < k \<Longrightarrow> k \<le> length xs \<Longrightarrow> drop (k - Suc 0) xs = xs ! (k - Suc 0) # drop k xs"
  by (cases k) (simp_all add: Cons_nth_drop_Suc)

lemma listLoop_paged:
  "2 \<le> k \<Longrightarrow> k \<le> length pages \<Longrightarrow>
   listLoop (pagedList pages) (int k) (int (length pages)) st =
     Some (st\<lparr>requested := requested st @ map int [k..<Suc (length pages)],
              gistsCh := gistsCh st @ concat (drop (k - 1) pages)\<rparr>)"
proof (induction "length pages - k" arbitrary: k st)
  case 0
  then have k: "k = length pages" by simp
  have pos: "0 < length pages" using 0 by simp
  have resp: "pagedList pages (int (length pages)) =
      Inr \<lparr>gists = pages ! (length pages - 1), NextPage = 0, LastPage = 0\<rparr>"
    using pos by (simp add: pagedList_def pageNumber_int)
  have dr: "drop (length pages - Suc 0) pages = [pages ! (length pages - Suc 0)]"
    using pos by (simp add: drop_pred)
  show ?case
    unfolding k
    apply (subst listLoop.simps)
    using pos by (simp add: resp listLoop_done dr)
next
  case (Suc d)
  then have lt: "k < length pages" and k2: "2 \<le> Suc k" and le: "Suc k \<le> length pages"
    and d: "d = length pages - Suc k" by simp_all
  have resp: "pagedList pages (int k) =
      Inr \<lparr>gists = pages ! (k - 1), NextPage = int k + 1, LastPage = int (length pages)\<rparr>"
    using lt Suc.prems by (simp add: pagedList_def pageNumber_int)
  have up: "[k..<Suc (length pages)] = k # [Suc k..<Suc (length pages)]"
    using lt by (simp add: upt_conv_Cons)
  have dr: "drop (k - Suc 0) pages = pages ! (k - Suc 0) # drop k pages"
    using lt Suc.prems(1) by (simp add: drop_pred)
  have step: "int k + 1 = int (Suc k)" by simp
  have ne: "pages \<noteq> []" using lt by auto
  show ?case
    apply (subst listLoop.simps)
    using lt Suc.prems ne
    by (simp add: resp step Suc.hyps(1) [OF d k2 le] up dr del: of_nat_Suc upt_Suc)
qed


lemma listGists_paged:
  "listGists (pagedList pages :: int \<Rightarrow> 'e + 'g response) =
     Some \<lparr>requested = 0 # map int [2..<Suc (length pages)], gistsCh = concat pages,
            errCh = [], gistsClosed = True, errClosed = True\<rparr>"
proof -
  consider "length pages = 0" | "length pages = 1" | "2 \<le> length pages" by linarith
  then show ?thesis
  proof cases
    case 1
    then have p: "pages = []" by simp
    show ?thesis
      unfolding p
      apply (simp add: listGists_def)
      apply (subst listLoop.simps)
      by (simp add: pagedList_def pageNumber_def listLoop_done listerStart_def)
  next
    case 2
    then obtain p where p: "pages = [p]" by (cases pages) auto
    show ?thesis
      unfolding p
      apply (simp add: listGists_def)
      apply (subst listLoop.simps)
      by (simp add: pagedList_def pageNumber_def listLoop_done listerStart_def)
  next
    case 3
    then obtain p ps where p: "pages = p # ps" by (cases pages) auto
    have resp: "(pagedList pages 0 :: 'e + 'g response) = Inr \<lparr>gists = p, NextPage = 2, LastPage = int (length pages)\<rparr>"
      using 3 by (auto simp: p pagedList_def pageNumber_def)
    have "listLoop (pagedList pages) 0 1 (listerStart :: ('g, 'e) lister) =
        listLoop (pagedList pages) (int 2) (int (length pages))
          (listerStart\<lparr>requested := [0], gistsCh := p\<rparr>)"
      by (subst listLoop.simps) (simp add: resp listerStart_def)
    also have "\<dots> = Some (listerStart\<lparr>requested := 0 # map int [2..<Suc (length pages)],
        gistsCh := p @ concat (drop (2 - 1) pages)\<rparr>)"
      by (subst listLoop_paged [OF _ 3]) (simp_all del: upt_Suc)
    finally show ?thesis
      by (simp add: listGists_def listerStart_def p del: upt_Suc)
  qed
qed

lemma listLoop_failing:
  "2 \<le> j \<Longrightarrow> j \<le> k \<Longrightarrow> k \<le> length pages \<Longrightarrow>
   listLoop (failingList pages k err) (int j) (int (length pages)) st =
     Some (st\<lparr>requested := requested st @ map int [j..<Suc k],
              gistsCh := gistsCh st @ concat (take (k - j) (drop (j - 1) pages)),
              errCh := errCh st @ [err]\<rparr>)"
proof (induction "k - j" arbitrary: j st)
  case 0
  then have j: "j = k" by simp
  have pos: "0 < k" "pages \<noteq> []" using 0 by auto
  have resp: "failingList pages k err (int k) = Inl err"
    using pos by (simp add: failingList_def pageNumber_int)
  show ?case
    unfolding j
    apply (subst listLoop.simps)
    using pos "0.prems"(3) by (simp add: resp)
next
  case (Suc d)
  then have lt: "j < k" "j < length pages" and j2: "2 \<le> Suc j" and le: "Suc j \<le> k"
    and d: "d = k - Suc j" by simp_all
  have resp: "failingList pages k err (int j) =
      Inr \<lparr>gists = pages ! (j - 1), NextPage = int j + 1, LastPage = int (length pages)\<rparr>"
    using lt Suc.prems by (simp add: failingList_def pagedList_def pageNumber_int)
  have up: "[j..<Suc k] = j # [Suc j..<Suc k]"
    using lt by (simp add: upt_conv_Cons)
  have dr: "drop (j - Suc 0) pages = pages ! (j - Suc 0) # drop j pages"
    using lt Suc.prems(1) by (simp add: drop_pred)
  have tk: "k - j = Suc (k - Suc j)" using lt by simp
  have step: "int j + 1 = int (Suc j)" by simp
  have ne: "pages \<noteq> []" using lt by auto
  show ?case
    apply (subst listLoop.simps)
    using lt Suc.prems ne
    by (simp add: resp step Suc.hyps(1) [OF d j2 le] up dr tk del: of_nat_Suc upt_Suc)
qed

lemma listGists_failing:
  assumes "1 \<le> k" "k \<le> length pages"
  shows "listGists (failingList pages k err) =
     Some \<lparr>requested = 0 # map int [2..<Suc k], gistsCh = concat (take (k - 1) pages),
            errCh = [err], gistsClosed = True, errClosed = True\<rparr>"
proof (cases "k = 1")
  case True
  have "listLoop (failingList pages k err) 0 1 listerStart =
        Some (listerStart\<lparr>requested := [0], errCh := [err]\<rparr>)"
    by (subst listLoop.simps) (simp add: True failingList_def pageNumber_def listerStart_def)
  then show ?thesis
    by (simp add: listGists_def listerStart_def True)
next
  case False
  then have k2: "2 \<le> k" using assms by simp
  then obtain p ps where p: "pages = p # ps" using assms by (cases pages) auto
  have resp: "failingList pages k err 0 = Inr \<lparr>gists = p, NextPage = 2, LastPage = int (length pages)\<rparr>"
    using k2 assms by (auto simp: p failingList_def pagedList_def pageNumber_def)
  have "listLoop (failingList pages k err) 0 1 listerStart =
        listLoop (failingList pages k err) (int 2) (int (length pages))
          (listerStart\<lparr>requested := [0], gistsCh := p\<rparr>)"
    by (subst listLoop.simps) (simp add: resp listerStart_def)
  also have "\<dots> = Some (listerStart\<lparr>requested := 0 # map int [2..<Suc k],
        gistsCh := p @ concat (take (k - 2) (drop (2 - 1) pages)), errCh := [err]\<rparr>)"
    using k2 assms by (subst listLoop_failing) (simp_all add: listerStart_def del: upt_Suc)
  also have "p @ concat (take (k - 2) (drop (2 - 1) pages)) = concat (take (k - 1) pages)"
  proof -
    obtain m where m: "k = Suc (Suc m)" using k2 by (metis One_nat_def Suc_1 Suc_le_D Suc_le_mono)
    show ?thesis by (simp add: p m)
  qed
  finally show ?thesis
    by (simp add: listGists_def listerStart_def del: upt_Suc)
qed

section \<open>Properties of the Cloner's task\<close>

text \<open>The task sends its path whether the clone failed or not.\<close>

lemma cloneTask_sends_path:
  "pathCh (cloneTask os baseDir r st) = pathCh st @ [Join [baseDir, repoPathToName r]]"
  by (simp add: cloneTask_def execGit_def Let_def split: prod.splits option.splits)

section \<open>Properties of the Merger\<close>

lemma andThen_Inr [simp]: "andThen (Inr st) f = f st"
  by (simp add: andThen_def)

lemma andThen_Inl [simp]: "andThen (Inl p) f = Inl p"
  by (simp add: andThen_def)

lemma failures_simps [simp]:
  "failures [] = []"
  "failures ((args, None) # cs) = failures cs"
  "failures ((args, Some e) # cs) = e # failures cs"
  by (simp_all add: failures_def List.map_filter_simps)

lemma execGit_merger:
  "\<exists>r st'. execGit os args (st :: 'w merger) = (r, st') \<and> calls st' = calls st @ [(args, r)] \<and>
     mergeErrCh st' = mergeErrCh st \<and> mergeErrClosed st' = mergeErrClosed st \<and>
     launched st' = launched st"
  by (auto simp: execGit_def Let_def split: prod.splits option.splits)

lemma runStages_open:
  "\<not> mergeErrClosed st \<Longrightarrow>
   \<exists>st' cs. runStages os repo sts st = Inr st' \<and> calls st' = calls st @ cs \<and>
     map fst cs = sts \<and>
     mergeErrCh st' = mergeErrCh st @ map (\<lambda>e. repo @ '': '' @ e) (failures cs) \<and>
     \<not> mergeErrClosed st' \<and> launched st' = launched st"
proof (induction sts arbitrary: st)
  case Nil
  then show ?case by simp
next
  case (Cons args rest)
  obtain r st1 where ex: "execGit os args st = (r, st1)" "calls st1 = calls st @ [(args, r)]"
     "mergeErrCh st1 = mergeErrCh st" "mergeErrClosed st1 = mergeErrClosed st"
     "launched st1 = launched st"
    using execGit_merger [of os args st] by blast
  show ?case
  proof (cases r)
    case None
    have op: "\<not> mergeErrClosed st1" using ex Cons.prems by simp
    from Cons.IH [OF op] obtain st' cs where
      "runStages os repo rest st1 = Inr st'" "calls st' = calls st1 @ cs" "map fst cs = rest"
      "mergeErrCh st' = mergeErrCh st1 @ map (\<lambda>e. repo @ '': '' @ e) (failures cs)"
      "\<not> mergeErrClosed st'" "launched st' = launched st1" by blast
    then show ?thesis
      using ex None by (intro exI [of _ st'] exI [of _ "(args, None) # cs"]) simp
  next
    case (Some e)
    let ?st2 = "st1\<lparr>mergeErrCh := mergeErrCh st1 @ [repo @ '': '' @ e]\<rparr>"
    have snd: "send (repo @ '': '' @ e) st1 = Inr ?st2"
      using ex Cons.prems by (simp add: send_def)
    have op: "\<not> mergeErrClosed ?st2" using ex Cons.prems by simp
    from Cons.IH [OF op] obtain st' cs where
      "runStages os repo rest ?st2 = Inr st'" "calls st' = calls ?st2 @ cs" "map fst cs = rest"
      "mergeErrCh st' = mergeErrCh ?st2 @ map (\<lambda>e. repo @ '': '' @ e) (failures cs)"
      "\<not> mergeErrClosed st'" "launched st' = launched ?st2" by blast
    then show ?thesis
      using ex Some snd by (intro exI [of _ st'] exI [of _ "(args, Some e) # cs"]) simp
  qed
qed

lemma attempted_append:
  "calls st' = calls st @ cs \<Longrightarrow>
   attempted st' = attempted st @ map (\<lambda>(args, r). last args)
       (filter (\<lambda>(args, r). take 2 args = [''remote'', ''add'']) cs)"
  by (simp add: attempted_def)

lemma stages_attempt:
  "map fst cs = stages repo \<Longrightarrow>
   map (\<lambda>(args, r). last args) (filter (\<lambda>(args, r). take 2 args = [''remote'', ''add'']) cs) = [repo]"
  by (auto simp: stages_def Let_def map_eq_Cons_conv)

lemma mergeLoop_open:
  "\<not> mergeErrClosed st \<Longrightarrow>
   \<exists>st' cs. mergeLoop os repos st = Inr st' \<and> calls st' = calls st @ cs \<and>
     map fst cs = concat (map stages repos) \<and>
     attempted st' = attempted st @ repos \<and>
     \<not> mergeErrClosed st' \<and> launched st' = launched st"
proof (induction repos arbitrary: st)
  case Nil
  then show ?case by simp
next
  case (Cons repo repos)
  from runStages_open [OF Cons.prems, of os repo "stages repo"] obtain st1 cs1 where
    one: "runStages os repo (stages repo) st = Inr st1" "calls st1 = calls st @ cs1"
      "map fst cs1 = stages repo" "\<not> mergeErrClosed st1" "launched st1 = launched st"
    by blast
  from Cons.IH [OF one(4)] obtain st' cs where
    rest: "mergeLoop os repos st1 = Inr st'" "calls st' = calls st1 @ cs"
      "map fst cs = concat (map stages repos)" "attempted st' = attempted st1 @ repos"
      "\<not> mergeErrClosed st'" "launched st' = launched st1"
    by blast
  have "attempted st1 = attempted st @ [repo]"
    using attempted_append [OF one(2)] stages_attempt [OF one(3)] by simp
  then show ?case
    using one rest by (intro exI [of _ st'] exI [of _ "cs1 @ cs"]) simp
qed

lemma mergeRepos_setup_ok:
  assumes "snd (Abs os ''.'' w) = None" "fst (Chdir os dst w) = None"
  shows "\<exists>st. mergeRepos os dst repos w = Inr st \<and>
     map fst (calls st) = concat (map stages repos) \<and> attempted st = repos \<and>
     mergeErrClosed st \<and> launched st"
proof -
  obtain currDir where a: "Abs os ''.'' w = (currDir, None)"
    using assms(1) by (cases "Abs os ''.'' w") auto
  obtain w1 where c: "Chdir os dst w = (None, w1)"
    using assms(2) by (cases "Chdir os dst w") auto
  let ?st2 = "\<lparr>world = w1, calls = [], mergeErrCh = [], mergeErrClosed = False, launched = True\<rparr>"
  have m: "mergeRepos os dst repos w = worker os currDir repos ?st2"
    by (simp add: mergeRepos_def mergerStart_def a c)
  have "\<not> mergeErrClosed ?st2" by simp
  from mergeLoop_open [OF this, of os repos] obtain st' cs where
    l: "mergeLoop os repos ?st2 = Inr st'" "calls st' = calls ?st2 @ cs"
      "map fst cs = concat (map stages repos)" "attempted st' = attempted ?st2 @ repos"
      "\<not> mergeErrClosed st'" "launched st' = launched ?st2"
    by blast
  have att0: "attempted ?st2 = []" by (simp add: attempted_def)
  obtain err w2 where r: "Chdir os currDir (world st') = (err, w2)"
    by (cases "Chdir os currDir (world st')") auto
  show ?thesis
  proof (cases err)
    case None
    then show ?thesis
      using l r att0 by (simp add: m worker_def closeCh_def attempted_def)
  next
    case (Some e)
    then show ?thesis
      using l r att0 by (simp add: m worker_def closeCh_def send_def attempted_def)
  qed
qed

text \<open>
  With the error channel closed, the worker's loops run the stages of the paths in
  order until the first that fails, and panic at the send of its error.
\<close>

lemma gitUntilFailure_append:
  "gitUntilFailure os (xs @ ys) w =
     (case gitUntilFailure os xs w of
        (log, w', failed) \<Rightarrow>
          if failed then (log, w', True)
          else (case gitUntilFailure os ys w' of
                  (log2, w'', failed2) \<Rightarrow> (log @ log2, w'', failed2)))"
  by (induction xs arbitrary: w) (auto split: prod.splits option.splits)

lemma runStages_closed_eq:
  "mergeErrClosed st \<Longrightarrow>
   runStages os repo sts st =
     (case gitUntilFailure os sts (world st) of
        (log, w', failed) \<Rightarrow>
          if failed then Inl (SendOnClosedChannel, st\<lparr>world := w', calls := calls st @ log\<rparr>)
          else Inr (st\<lparr>world := w', calls := calls st @ log\<rparr>))"
proof (induction sts arbitrary: st)
  case Nil
  then show ?case by simp
next
  case (Cons args rest)
  obtain out err w' where c: "CombinedOutput os (''git'' # args) (world st) = ((out, err), w')"
    by (metis surj_pair)
  show ?case
  proof (cases err)
    case None
    let ?st1 = "st\<lparr>world := w', calls := calls st @ [(args, None)]\<rparr>"
    have e: "execGit os args st = (None, ?st1)" by (simp add: execGit_def c None Let_def)
    have cl: "mergeErrClosed ?st1" using Cons.prems by simp
    show ?thesis
      using Cons.IH [OF cl] by (simp add: e c None split: prod.splits)
  next
    case (Some x)
    let ?st1 = "st\<lparr>world := w', calls := calls st @ [(args, Some (out @ '': '' @ x))]\<rparr>"
    have e: "execGit os args st = (Some (out @ '': '' @ x), ?st1)"
      by (simp add: execGit_def c Some Let_def)
    show ?thesis
      using Cons.prems by (simp add: e c Some send_def)
  qed
qed

lemma mergeLoop_closed_eq:
  "mergeErrClosed st \<Longrightarrow>
   mergeLoop os repos st =
     (case gitUntilFailure os (concat (map stages repos)) (world st) of
        (log, w', failed) \<Rightarrow>
          if failed then Inl (SendOnClosedChannel, st\<lparr>world := w', calls := calls st @ log\<rparr>)
          else Inr (st\<lparr>world := w', calls := calls st @ log\<rparr>))"
proof (induction repos arbitrary: st)
  case Nil
  then show ?case by simp
next
  case (Cons repo repos)
  obtain log w' failed where g: "gitUntilFailure os (stages repo) (world st) = (log, w', failed)"
    by (metis surj_pair)
  show ?case
  proof (cases failed)
    case True
    then show ?thesis
      using Cons.prems by (simp add: runStages_closed_eq g gitUntilFailure_append)
  next
    case False
    let ?st1 = "st\<lparr>world := w', calls := calls st @ log\<rparr>"
    have cl: "mergeErrClosed ?st1" using Cons.prems by simp
    show ?thesis
      using Cons.prems Cons.IH [OF cl]
      by (simp add: runStages_closed_eq g False gitUntilFailure_append split: prod.splits)
  qed
qed

section \<open>Properties of the admission gate\<close>

lemma filter_update_count:
  "i < length xs \<Longrightarrow>
   length (filter P (xs[i := y])) + (if P (xs ! i) then 1 else 0) =
   length (filter P xs) + (if P y then 1 else 0)"
proof (induction xs arbitrary: i)
  case Nil
  then show ?case by simp
next
  case (Cons x xs)
  show ?case
  proof (cases i)
    case 0
    then show ?thesis by simp
  next
    case (Suc j)
    then have "j < length xs" using Cons.prems by simp
    from Cons.IH [OF this] show ?thesis using Suc by simp
  qed
qed

lemma move_holders:
  assumes "move i a b s = Some s'"
  shows "limit s' = limit s \<and>
    holders s' + (if holdsSlot a then 1 else 0) = holders s + (if holdsSlot b then 1 else 0)"
proof -
  from assms have i: "i < length (tasks s)" and a: "tasks s ! i = a"
    and s': "s' = s\<lparr>tasks := (tasks s)[i := b]\<rparr>"
    by (auto simp: move_def split: if_splits)
  show ?thesis
    using filter_update_count [OF i, of holdsSlot b] by (simp add: s' a holders_def)
qed

lemma step_gate:
  assumes "step e s = Some s'" "limit s = holders s" "limit s \<le> limitCap"
  shows "limit s' = holders s' \<and> limit s' \<le> limitCap"
proof (cases e)
  case Spawn
  then show ?thesis using assms by (auto simp: holders_def)
next
  case (Acquire i)
  then obtain s1 where "move i Spawned Cloning s = Some s1" "s' = s1\<lparr>limit := limit s + 1\<rparr>"
    "limit s < limitCap"
    using assms(1) by (auto split: if_splits)
  then show ?thesis using assms(2) move_holders [of i Spawned Cloning s s1]
    by (simp add: holders_def)
next
  case (CloneOk i)
  then show ?thesis using assms move_holders [of i Cloning Sending s s'] by simp
next
  case (CloneFail i)
  then show ?thesis using assms move_holders [of i Cloning Reporting s s'] by simp
next
  case (Report i)
  then show ?thesis using assms move_holders [of i Reporting Sending s s'] by simp
next
  case (SendPath i)
  then show ?thesis using assms move_holders [of i Sending Releasing s s'] by simp
next
  case (Release i)
  then obtain s1 where "move i Releasing Finishing s = Some s1" "s' = s1\<lparr>limit := limit s - 1\<rparr>"
    "0 < limit s"
    using assms(1) by (auto split: if_splits)
  then show ?thesis using assms(2,3) move_holders [of i Releasing Finishing s s1]
    by (auto simp: holders_def)
next
  case (Finish i)
  then show ?thesis using assms move_holders [of i Finishing Finished s s'] by simp
qed

lemma run_gate:
  "run es s = Some s' \<Longrightarrow> limit s = holders s \<Longrightarrow> limit s \<le> limitCap \<Longrightarrow>
   limit s' = holders s' \<and> limit s' \<le> limitCap"
proof (induction es arbitrary: s)
  case Nil
  then show ?case by simp
next
  case (Cons e es)
  then obtain s1 where s1: "step e s = Some s1" "run es s1 = Some s'"
    by (auto split: option.splits)
  from step_gate [OF s1(1) Cons.prems(2,3)] Cons.IH [OF s1(2)] show ?case by simp
qed

lemma cloning_le_holders: "cloning s \<le> holders s"
proof -
  have "length (filter (\<lambda>p. p = Cloning) xs) \<le> length (filter holdsSlot xs)" for xs
    by (induction xs) auto
  then show ?thesis by (simp add: cloning_def holders_def)
qed

text \<open>
  A task inside the clone command goes on to give its slot back, whether the command
  returns without or with an error: nothing on either way can block it.
\<close>

lemma holder_counted:
  "i < length xs \<Longrightarrow> P (xs ! i) \<Longrightarrow> 0 < length (filter P xs)"
  by (metis filter_empty_conv length_greater_0_conv nth_mem)

lemma release_after_clone:
  assumes "limit s = holders s" "i < length (tasks s)" "tasks s ! i = Cloning"
  shows "run [CloneOk i, SendPath i, Release i] s =
           Some (s\<lparr>tasks := (tasks s)[i := Finishing], limit := limit s - 1\<rparr>)"
    and "run [CloneFail i, Report i, SendPath i, Release i] s =
           Some (s\<lparr>tasks := (tasks s)[i := Finishing], limit := limit s - 1\<rparr>)"
proof -
  have "0 < limit s"
    using holder_counted [of i "tasks s" holdsSlot] assms by (simp add: holders_def)
  then show "run [CloneOk i, SendPath i, Release i] s =
           Some (s\<lparr>tasks := (tasks s)[i := Finishing], limit := limit s - 1\<rparr>)"
    and "run [CloneFail i, Report i, SendPath i, Release i] s =
           Some (s\<lparr>tasks := (tasks s)[i := Finishing], limit := limit s - 1\<rparr>)"
    using assms(2,3) by (simp_all add: move_def)
qed

section \<open>The claims\<close>

text \<open>
  C1. Claimed: a clone that fails produces no path downstream, and of two gists of
  which one fails to clone the Merger attempts only the other's path. The code sends
  the path after the clone whatever its result (\<open>cloneTask_sends_path\<close>): with two
  gists of which the second fails to clone, both paths are sent, one error is sent,
  and the Merger starts its \<open>remote add\<close> for both paths.
\<close>

theorem C1_failed_clone_still_sends_its_path:
  "pathCh (cloneRepos cloneOfBFails ''/tmp/012'' [gistA, gistB] ()) =
     [''/tmp/012/1a2b3c'', ''/tmp/012/4d5e6f''] \<and>
   reposErrCh (cloneRepos cloneOfBFails ''/tmp/012'' [gistA, gistB] ()) =
     [''fatal: repository not found: exit status 128''] \<and>
   (case mergeRepos cloneOfBFails ''/dst''
           (pathCh (cloneRepos cloneOfBFails ''/tmp/012'' [gistA, gistB] ())) () of
      Inl p \<Rightarrow> []
    | Inr st \<Rightarrow> attempted st) = [''/tmp/012/1a2b3c'', ''/tmp/012/4d5e6f'']"
  by (simp add: cloneRepos_def cloneTask_def execGit_def cloneOfBFails_def quietOs_def
      gistA_def gistB_def repoPathToName_def Base_def TrimRight_def isPathSeparator_def
      Clean_def mergeRepos_def mergerStart_def worker_def stages_def send_def closeCh_def
      attempted_def Let_def)

text \<open>
  C2. Claimed: with the variable set and no \<open>--token\<close> on the command line the
  credential is the variable's value. In the code \<open>parseFlags\<close> runs after
  \<open>parseEnvs\<close> and the definition of the flag stores its empty default in
  \<open>token\<close>: the value from the environment is gone and \<open>main\<close> stops for a
  missing argument.
\<close>

theorem C2_environment_token_is_overwritten:
  "parseFlags [''--user=u'', ''--repo=/r'']
     (parseEnvs [SYNC2REPO_TOKEN_NAME \<mapsto> ''secret''] initGlobals) =
     Inr (\<lparr>token = [], repoPath = ''/r'', userName = ''u''\<rparr>, [''user'', ''repo'']) \<and>
   startup [SYNC2REPO_TOKEN_NAME \<mapsto> ''secret''] [''--user=u'', ''--repo=/r''] =
     Inl MissingArguments"
  by (simp add: startup_def parseFlags_def parseEnvs_def Getenv_def initGlobals_def
      StringVar_def splitName_def formal_def SYNC2REPO_TOKEN_NAME_def Let_def)

text \<open>
  C3. Claimed: the derived name is the final segment without its \<open>.git\<close> suffix,
  and the derivation is idempotent. The code trims every trailing character that
  occurs in \<open>.git\<close>: for the final segment \<open>digit.git\<close> the name is \<open>d\<close>, not
  \<open>digit\<close>. (The derivation is idempotent: \<open>repoPathToName_idempotent\<close>.)
\<close>

theorem C3_trim_cuts_into_the_name:
  "repoPathToName ''https://gist.github.com/digit.git'' = ''d''"
  by (simp add: repoPathToName_def Base_def TrimRight_def isPathSeparator_def)

text \<open>
  C4. Claimed: distinct clone URLs get distinct names. The name is derived from the
  final segment alone, and its \<open>.git\<close> suffix is dropped: two URLs that differ before
  the final segment get the same name, and so do a URL and the same URL with \<open>.git\<close>
  added.
\<close>

theorem C4_same_stem_same_name:
  "''https://gist.github.com/alice/1a2b3c.git'' \<noteq> ''https://gist.github.com/bob/1a2b3c.git'' \<and>
   repoPathToName ''https://gist.github.com/alice/1a2b3c.git'' =
   repoPathToName ''https://gist.github.com/bob/1a2b3c.git'' \<and>
   ''https://gist.github.com/1a2b3c'' \<noteq> ''https://gist.github.com/1a2b3c.git'' \<and>
   repoPathToName ''https://gist.github.com/1a2b3c'' =
   repoPathToName ''https://gist.github.com/1a2b3c.git''"
  by (simp add: repoPathToName_def Base_def TrimRight_def isPathSeparator_def)

text \<open>
  C4, amended. For two URLs whose final segments (\<open>filepath.Base\<close>) are a stem,
  followed by \<open>.git\<close> or by nothing, where the stem does not end in one of the
  characters \<open>.\<close>, \<open>g\<close>, \<open>i\<close>, \<open>t\<close>: the names are equal exactly when the stems
  are equal.
\<close>

theorem C4_names_equal_iff_stems_equal:
  assumes "Base u1 = s1 @ e1" and "Base u2 = s2 @ e2"
    and "e1 = [] \<or> e1 = ''.git''" and "e2 = [] \<or> e2 = ''.git''"
    and "s1 = [] \<or> last s1 \<notin> set ''.git''" and "s2 = [] \<or> last s2 \<notin> set ''.git''"
  shows "(repoPathToName u1 = repoPathToName u2) = (s1 = s2)"
proof -
  have name: "repoPathToName u = s"
    if "Base u = s @ e" "e = [] \<or> e = ''.git''" "s = [] \<or> last s \<notin> set ''.git''" for u s e
  proof -
    have "set e \<subseteq> set ''.git''" using that(2) by auto
    then have "TrimRight (s @ e) ''.git'' = TrimRight s ''.git''"
      by (rule TrimRight_append_cutset)
    also have "\<dots> = s" using that(3) by (rule TrimRight_unchanged)
    finally show ?thesis by (simp add: repoPathToName_def that(1))
  qed
  show ?thesis
    using name [OF assms(1,3,5)] name [OF assms(2,4,6)] by simp
qed

theorem C4_names_equal_iff_stems_equal_witness:
  "Base gistA = ''1a2b3c'' @ ''.git'' \<and> Base ''https://gist.github.com/4d5e6f'' = ''4d5e6f'' @ [] \<and>
   last ''1a2b3c'' \<notin> set ''.git'' \<and> last ''4d5e6f'' \<notin> set ''.git'' \<and>
   repoPathToName gistA \<noteq> repoPathToName ''https://gist.github.com/4d5e6f''"
proof -
  have b1: "Base gistA = ''1a2b3c'' @ ''.git''"
    by (simp add: gistA_def Base_def isPathSeparator_def)
  have b2: "Base ''https://gist.github.com/4d5e6f'' = ''4d5e6f'' @ []"
    by (simp add: Base_def isPathSeparator_def)
  have l1: "''1a2b3c'' = [] \<or> last ''1a2b3c'' \<notin> set ''.git''" by simp
  have l2: "''4d5e6f'' = [] \<or> last ''4d5e6f'' \<notin> set ''.git''" by simp
  show ?thesis
    using b1 b2 C4_names_equal_iff_stems_equal [OF b1 b2 _ _ l1 l2] by simp
qed

text \<open>
  C5. Claimed: for every path the Merger works on, all four stages are attempted even
  when an earlier one fails, each failure is sent with the path, and the loop goes on
  to the next path. So it is while the error channel is open (\<open>runStages_open\<close>,
  \<open>mergeLoop_open\<close>). After a failed setup the channel is closed and the worker runs
  all the same: with a destination that does not exist and a fetch that fails, the
  worker panics at the send of the fetch error, and neither \<open>merge\<close> nor
  \<open>remote rm\<close> of that path is attempted.
\<close>

theorem C5_setup_failure_cuts_the_stages_short:
  "mergeRepos (dstMissing fetchFails) ''/dst'' [cloneA, cloneB] () =
     Inl (SendOnClosedChannel,
          \<lparr>world = (),
           calls = [([''remote'', ''add'', ''1a2b3c'', ''/tmp/012/1a2b3c''], None),
                    ([''fetch'', ''1a2b3c''], Some ''fatal: no such remote: exit status 128'')],
           mergeErrCh = [''chdir /dst: no such file or directory''],
           mergeErrClosed = True, launched = True\<rparr>)"
  by (simp add: mergeRepos_def mergerStart_def worker_def dstMissing_def fetchFails_def
      quietOs_def cloneA_def cloneB_def stages_def repoPathToName_def Base_def TrimRight_def
      isPathSeparator_def execGit_def send_def closeCh_def Let_def)

text \<open>
  C6. Against a remote that holds \<open>N\<close> gists in \<open>P\<close> pages and fails on none, the
  Lister returns, has sent exactly the gists of all pages in page order (\<open>N\<close> of
  them) and no error, and has closed both channels.
\<close>

theorem C6_lister_emits_every_descriptor:
  "listGists (pagedList pages :: int \<Rightarrow> 'e + 'g response) =
     Some \<lparr>requested = 0 # map int [2..<Suc (length pages)], gistsCh = concat pages,
            errCh = [], gistsClosed = True, errClosed = True\<rparr> \<and>
   length (concat pages) = sum_list (map length pages)"
  by (simp add: listGists_paged length_concat del: upt_Suc)

theorem C6_lister_emits_every_descriptor_witness:
  "listGists (pagedList [[1, 2], [3], [4, 5 :: nat]] :: int \<Rightarrow> string + nat response) =
     Some \<lparr>requested = [0, 2, 3], gistsCh = [1, 2, 3, 4, 5], errCh = [],
            gistsClosed = True, errClosed = True\<rparr>"
  using C6_lister_emits_every_descriptor [of "[[1, 2], [3], [4, 5 :: nat]]"]
  by (simp add: upt_rec)

text \<open>
  C7. When the fetch of page \<open>k\<close> of \<open>P\<close> fails, the Lister returns, has sent the
  gists of the pages before \<open>k\<close> and the one error, has asked for no page after
  \<open>k\<close>, and has closed both channels.
\<close>

theorem C7_lister_stops_at_failed_page:
  assumes "1 \<le> k" "k \<le> length pages"
  shows "listGists (failingList pages k err) =
     Some \<lparr>requested = 0 # map int [2..<Suc k], gistsCh = concat (take (k - 1) pages),
            errCh = [err], gistsClosed = True, errClosed = True\<rparr>"
  using assms by (rule listGists_failing)

theorem C7_lister_stops_at_failed_page_witness:
  "(1::nat) \<le> 2 \<and> 2 \<le> length [[1, 2], [3], [4, 5 :: nat]] \<and>
   listGists (failingList [[1, 2], [3], [4, 5 :: nat]] 2 ''boom'') =
     Some \<lparr>requested = [0, 2], gistsCh = [1, 2], errCh = [''boom''],
            gistsClosed = True, errClosed = True\<rparr>"
  using C7_lister_stops_at_failed_page [of 2 "[[1, 2], [3], [4, 5 :: nat]]" "''boom''"]
  by (simp add: upt_rec)

text \<open>
  C8. Claimed: every path delivered to the Merger is processed exactly once, in the
  order received, and a failed stage of one path does not keep the later paths from
  being attempted. So it is when the setup succeeded (\<open>mergeRepos_setup_ok\<close>). After
  a failed setup the worker runs with its error channel closed: with a working
  directory that cannot be resolved and a merge of the first path that fails, the
  worker panics at the send of the merge error and the second path is never
  attempted.
\<close>

theorem C8_setup_failure_skips_the_next_path:
  "mergeRepos (cwdGone mergeFails) ''/dst'' [cloneA, cloneB] () =
     Inl (SendOnClosedChannel,
          \<lparr>world = (),
           calls = [([''remote'', ''add'', ''1a2b3c'', ''/tmp/012/1a2b3c''], None),
                    ([''fetch'', ''1a2b3c''], None),
                    ([''merge'', ''--allow-unrelated-histories'', ''-m'', ''move gists to repo'',
                      ''1a2b3c/master''], Some ''CONFLICT (add/add): exit status 1'')],
           mergeErrCh = [''getwd: no such file or directory''],
           mergeErrClosed = True, launched = True\<rparr>) \<and>
   (case mergeRepos (cwdGone mergeFails) ''/dst'' [cloneA, cloneB] () of
      Inl (p, st) \<Rightarrow> attempted st
    | Inr st \<Rightarrow> attempted st) = [cloneA]"
  by (simp add: mergeRepos_def mergerStart_def worker_def cwdGone_def mergeFails_def
      quietOs_def cloneA_def cloneB_def stages_def repoPathToName_def Base_def TrimRight_def
      isPathSeparator_def execGit_def send_def closeCh_def attempted_def Let_def)

text \<open>
  C9. In every state that any schedule of the clone tasks reaches, at most 30 tasks
  are inside the clone command, and the tokens in \<open>limit\<close> are exactly the tasks
  between their send on \<open>limit\<close> and their receive from it. A task that is inside the
  clone command took its slot before, and gives it back afterwards on both ways out
  of the command, the one without and the one with an error.
\<close>

theorem C9_at_most_thirty_clones_at_once:
  assumes "run es gateStart = Some s"
  shows "cloning s \<le> 30 \<and> limit s = holders s \<and>
    (\<forall>i < length (tasks s). tasks s ! i = Cloning \<longrightarrow>
       run [CloneOk i, SendPath i, Release i] s =
         Some (s\<lparr>tasks := (tasks s)[i := Finishing], limit := limit s - 1\<rparr>) \<and>
       run [CloneFail i, Report i, SendPath i, Release i] s =
         Some (s\<lparr>tasks := (tasks s)[i := Finishing], limit := limit s - 1\<rparr>))"
proof -
  have "limit gateStart = holders gateStart" "limit gateStart \<le> limitCap"
    by (simp_all add: gateStart_def holders_def)
  from run_gate [OF assms this] have inv: "limit s = holders s" "limit s \<le> limitCap"
    by simp_all
  have "cloning s \<le> 30"
    using inv cloning_le_holders [of s] by (simp add: limitCap_def)
  then show ?thesis
    using inv(1) release_after_clone [OF inv(1)] by blast
qed

theorem C9_at_most_thirty_clones_at_once_witness:
  "run [Spawn, Spawn, Acquire 1, CloneFail 1, Acquire 0, Report 1, SendPath 1, Release 1]
     gateStart = Some \<lparr>tasks = [Cloning, Finishing], limit = 1\<rparr> \<and>
   cloning \<lparr>tasks = [Cloning, Finishing], limit = 1\<rparr> \<le> 30 \<and>
   limit \<lparr>tasks = [Cloning, Finishing], limit = 1\<rparr> =
     holders \<lparr>tasks = [Cloning, Finishing], limit = 1\<rparr> \<and>
   run [CloneOk 0, SendPath 0, Release 0] \<lparr>tasks = [Cloning, Finishing], limit = 1\<rparr> =
     Some \<lparr>tasks = [Finishing, Finishing], limit = 0\<rparr> \<and>
   run [CloneFail 0, Report 0, SendPath 0, Release 0] \<lparr>tasks = [Cloning, Finishing], limit = 1\<rparr> =
     Some \<lparr>tasks = [Finishing, Finishing], limit = 0\<rparr>"
proof -
  have r: "run [Spawn, Spawn, Acquire 1, CloneFail 1, Acquire 0, Report 1, SendPath 1, Release 1]
     gateStart = Some \<lparr>tasks = [Cloning, Finishing], limit = 1\<rparr>"
    by (simp add: gateStart_def move_def limitCap_def)
  show ?thesis
    using r C9_at_most_thirty_clones_at_once [OF r] by simp
qed

text \<open>
  C10. Claimed: a failure of either setup step makes the Merger close its error
  channel and still launch its worker, which then panics. When both steps fail the
  worker is not launched: the second error is sent on the channel the first failure
  closed, and the Merger itself panics there.
\<close>

theorem C10_both_setup_steps_fail:
  "mergeRepos (cwdGone (dstMissing quietOs)) ''/dst'' [cloneA] () =
     Inl (SendOnClosedChannel,
          \<lparr>world = (), calls = [], mergeErrCh = [''getwd: no such file or directory''],
           mergeErrClosed = True, launched = False\<rparr>)"
  by (simp add: mergeRepos_def mergerStart_def cwdGone_def dstMissing_def quietOs_def
      send_def closeCh_def)

text \<open>
  C10, amended. \<open>mergeRepos\<close> is the Merger taken to the end of its worker. When both
  setup steps fail it panics with a send on the closed channel before the worker is
  launched and before any git command. When exactly one fails the worker is launched
  with the channel closed; it runs the stages of the paths in order up to and
  including the first that fails and panics at the send of that error; when none
  fails it panics at the send of the error of a failed change back to the starting
  directory, and otherwise at its close of the closed channel. In each case the
  channel holds the first setup error and nothing else.
\<close>

theorem C10_setup_failure_panics:
  assumes "Abs os ''.'' w = (currDir, aerr)" and "Chdir os dstRepoPath w = (cerr, w1)"
    and "aerr \<noteq> None \<or> cerr \<noteq> None"
  shows "mergeRepos os dstRepoPath repos w =
     (let st = \<lparr>world = w1, calls = [],
                 mergeErrCh = [case aerr of Some e \<Rightarrow> e | None \<Rightarrow> the cerr],
                 mergeErrClosed = True, launched = False\<rparr>
      in if aerr \<noteq> None \<and> cerr \<noteq> None then Inl (SendOnClosedChannel, st)
         else
           (case gitUntilFailure os (concat (map stages repos)) w1 of
              (log, w2, failed) \<Rightarrow>
                if failed
                then Inl (SendOnClosedChannel, st\<lparr>world := w2, calls := log, launched := True\<rparr>)
                else
                  (case Chdir os currDir w2 of
                     (Some e, w3) \<Rightarrow>
                       Inl (SendOnClosedChannel, st\<lparr>world := w3, calls := log, launched := True\<rparr>)
                   | (None, w3) \<Rightarrow>
                       Inl (CloseOfClosedChannel, st\<lparr>world := w3, calls := log, launched := True\<rparr>))))"
proof -
  have both: "mergeRepos os dstRepoPath repos w =
      Inl (SendOnClosedChannel,
           \<lparr>world = w1, calls = [], mergeErrCh = [e1], mergeErrClosed = True, launched = False\<rparr>)"
    if "aerr = Some e1" "cerr = Some e2" for e1 e2
    using that assms(1,2) by (simp add: mergeRepos_def mergerStart_def send_def closeCh_def)
  have one: "mergeRepos os dstRepoPath repos w =
      worker os currDir repos
        \<lparr>world = w1, calls = [], mergeErrCh = [e], mergeErrClosed = True, launched = True\<rparr>"
    if "(aerr = Some e \<and> cerr = None) \<or> (aerr = None \<and> cerr = Some e)" for e
    using that assms(1,2) by (auto simp: mergeRepos_def mergerStart_def send_def closeCh_def)
  have w: "worker os currDir repos st =
      (case gitUntilFailure os (concat (map stages repos)) (world st) of
         (log, w2, failed) \<Rightarrow>
           if failed
           then Inl (SendOnClosedChannel, st\<lparr>world := w2, calls := calls st @ log\<rparr>)
           else
             (case Chdir os currDir w2 of
                (Some e, w3) \<Rightarrow>
                  Inl (SendOnClosedChannel, st\<lparr>world := w3, calls := calls st @ log\<rparr>)
              | (None, w3) \<Rightarrow>
                  Inl (CloseOfClosedChannel, st\<lparr>world := w3, calls := calls st @ log\<rparr>)))"
    if "mergeErrClosed st" for st :: "'a merger"
    using that
    by (simp add: worker_def mergeLoop_closed_eq send_def closeCh_def
        split: prod.splits option.splits)
  show ?thesis
  proof (cases aerr)
    case None
    then obtain e where e: "cerr = Some e" using assms(3) by auto
    show ?thesis
      by (simp add: one [of e] None e w Let_def split: prod.splits option.splits)
  next
    case (Some e1)
    show ?thesis
    proof (cases cerr)
      case None
      show ?thesis
        by (simp add: one [of e1] None Some w Let_def split: prod.splits option.splits)
    next
      case (Some e2)
      show ?thesis
        using both [OF \<open>aerr = Some e1\<close> Some] by (simp add: \<open>aerr = Some e1\<close> Some)
    qed
  qed
qed

theorem C10_setup_failure_panics_witness:
  "Abs (cwdGone fetchFails) ''.'' () = ([], Some ''getwd: no such file or directory'') \<and>
   Chdir (cwdGone fetchFails) ''/dst'' () = (None, ()) \<and>
   mergeRepos (cwdGone fetchFails) ''/dst'' [cloneA, cloneB] () =
     Inl (SendOnClosedChannel,
          \<lparr>world = (),
           calls = [([''remote'', ''add'', ''1a2b3c'', ''/tmp/012/1a2b3c''], None),
                    ([''fetch'', ''1a2b3c''], Some ''fatal: no such remote: exit status 128'')],
           mergeErrCh = [''getwd: no such file or directory''],
           mergeErrClosed = True, launched = True\<rparr>)"
proof -
  have a: "Abs (cwdGone fetchFails) ''.'' () = ([], Some ''getwd: no such file or directory'')"
    by (simp add: cwdGone_def fetchFails_def quietOs_def)
  have c: "Chdir (cwdGone fetchFails) ''/dst'' () = (None, ())"
    by (simp add: cwdGone_def fetchFails_def quietOs_def)
  have h: "Some ''getwd: no such file or directory'' \<noteq> None \<or> (None :: string option) \<noteq> None"
    by simp
  show ?thesis
    using a c C10_setup_failure_panics [OF a c h, of "[cloneA, cloneB]"]
    by (simp add: cwdGone_def fetchFails_def quietOs_def cloneA_def cloneB_def stages_def
        repoPathToName_def Base_def TrimRight_def isPathSeparator_def Let_def)
qed

end
